theory Spec2Isabelle
  imports Complex_Main "HOL-Library.Log_Nat" "HOL-Library.Multiset"
begin

section \<open>Python floats\<close>

text \<open>
  The amounts of \<^verbatim>\<open>libro_diario_refactor.py\<close> are Python floats (\<^verbatim>\<open>monto: float\<close>, the
  totals start at \<^verbatim>\<open>0.0\<close>), that is IEEE 754 binary64 numbers. Every finite double is a
  whole multiple of the smallest subnormal, \<^verbatim>\<open>2 ** -1074\<close>, so a finite double is modelled by
  that multiple: \<open>Fin k\<close> is the number \<open>k\<close> times \<^verbatim>\<open>2 ** -1074\<close>. The value \<^verbatim>\<open>1.0\<close> is
  \<open>Fin (2 ^ 1074)\<close>, the largest finite double is \<open>Fin (2 ^ 2098 - 2 ^ 2045)\<close>.
  The two zeros are one value, \<open>Fin 0\<close>: Python's comparisons do not tell them apart, and
  \<^verbatim>\<open>-0.0\<close> is neither stored (it fails \<^verbatim>\<open>monto <= 0\<close>) nor produced by the sums, which
  start at \<^verbatim>\<open>0.0\<close>. All NaNs are one value. An integer argument, as in
  \<^verbatim>\<open>agregar_transaccion("d", "desc", 10, "INGRESO")\<close>, is read as the float of the same value.
\<close>

datatype pyfloat = Fin int | PInf | NInf | NaN

text \<open>
  \<open>rne n s\<close> is \<open>n / 2 ^ s\<close> rounded to the nearest integer, a tie going to the even one
  (the rounding mode of Python's float arithmetic).
\<close>

definition rne :: "int \<Rightarrow> nat \<Rightarrow> int" where
  "rne n s =
     (let q = n div 2 ^ s; r = n mod 2 ^ s in
      if 2 * r < 2 ^ s then q
      else if 2 ^ s < 2 * r then q + 1
      else if even q then q else q + 1)"

text \<open>
  \<open>round_double n\<close> is the double nearest to the exact number of \<open>n\<close> units: a number
  of at most 53 significant bits is a double already; a longer one loses its low bits by
  \<open>rne\<close>; a result of magnitude \<^verbatim>\<open>2 ** 1024\<close> or more (\<open>2 ^ 2098\<close> units) is an infinity.
\<close>

definition round_double :: "int \<Rightarrow> pyfloat" where
  "round_double n =
     (if bitlen \<bar>n\<bar> \<le> 53 then Fin n
      else let s = nat (bitlen \<bar>n\<bar> - 53); r = rne n s * 2 ^ s in
        if 2 ^ 2098 \<le> \<bar>r\<bar> then (if 0 < n then PInf else NInf) else Fin r)"

text \<open>A value of the model is a double when rounding leaves it as it is.\<close>

fun is_double :: "pyfloat \<Rightarrow> bool" where
  "is_double (Fin k) = (round_double k = Fin k)"
| "is_double x = True"

text \<open>Python's \<^verbatim>\<open>x + y\<close>, \<^verbatim>\<open>-x\<close> and \<^verbatim>\<open>x - y\<close> on floats. None of them raises.\<close>

fun fadd :: "pyfloat \<Rightarrow> pyfloat \<Rightarrow> pyfloat" where
  "fadd NaN y = NaN"
| "fadd x NaN = NaN"
| "fadd PInf NInf = NaN"
| "fadd NInf PInf = NaN"
| "fadd PInf y = PInf"
| "fadd x PInf = PInf"
| "fadd NInf y = NInf"
| "fadd x NInf = NInf"
| "fadd (Fin a) (Fin b) = round_double (a + b)"

fun fneg :: "pyfloat \<Rightarrow> pyfloat" where
  "fneg (Fin a) = Fin (- a)"
| "fneg PInf = NInf"
| "fneg NInf = PInf"
| "fneg NaN = NaN"

definition fsub :: "pyfloat \<Rightarrow> pyfloat \<Rightarrow> pyfloat" where
  "fsub x y = fadd x (fneg y)"

text \<open>Python's \<^verbatim>\<open>x <= y\<close> and \<^verbatim>\<open>x < y\<close>: false as soon as one side is NaN.\<close>

fun fle :: "pyfloat \<Rightarrow> pyfloat \<Rightarrow> bool" where
  "fle NaN y = False"
| "fle x NaN = False"
| "fle NInf y = True"
| "fle x PInf = True"
| "fle PInf y = False"
| "fle x NInf = False"
| "fle (Fin a) (Fin b) = (a \<le> b)"

fun flt :: "pyfloat \<Rightarrow> pyfloat \<Rightarrow> bool" where
  "flt NaN y = False"
| "flt x NaN = False"
| "flt PInf y = False"
| "flt x NInf = False"
| "flt NInf y = True"
| "flt x PInf = True"
| "flt (Fin a) (Fin b) = (a < b)"

text \<open>
  \<open>diadico m e\<close> is the float literal of value \<open>m\<close> times \<^verbatim>\<open>2 ** e\<close> (for \<open>e\<close> from -1074 on):
  \<^verbatim>\<open>500.0\<close> is \<open>diadico 500 0\<close> and \<^verbatim>\<open>120.50\<close> is \<open>diadico 241 (-1)\<close>.
\<close>

definition diadico :: "int \<Rightarrow> int \<Rightarrow> pyfloat" where
  "diadico m e = round_double (m * 2 ^ nat (e + 1074))"

text \<open>
  The sum of a sequence of floats as the program forms it: from \<^verbatim>\<open>0.0\<close>, adding the
  elements from first to last.
\<close>

definition suma :: "pyfloat list \<Rightarrow> pyfloat" where
  "suma xs = foldl fadd (Fin 0) xs"

section \<open>Python strings\<close>

text \<open>
  A string is the list of the bytes of its UTF-8 encoding. \<^verbatim>\<open>str.lower()\<close> maps the
  capitals \<^verbatim>\<open>A\<close> to \<^verbatim>\<open>Z\<close> to their small letters and leaves every other ASCII character
  as it is. It also changes characters outside ASCII, but never into one of the letters
  of \<^verbatim>\<open>ingreso\<close> and \<^verbatim>\<open>egreso\<close>, and the program only asks whether the lowered string is
  one of these two words; so the bytes above 127 are left as they are here.
\<close>

definition es_mayuscula :: "char \<Rightarrow> bool" where
  "es_mayuscula c = (65 \<le> (of_char c :: nat) \<and> (of_char c :: nat) \<le> 90)"

definition lower_char :: "char \<Rightarrow> char" where
  "lower_char c = (if es_mayuscula c then char_of (of_char c + 32 :: nat) else c)"

definition lower :: "string \<Rightarrow> string" where
  "lower s = map lower_char s"

text \<open>
  Two strings are equal up to the case of their letters when they have the same length
  and, position by position, the same character or a capital and its small letter.
\<close>

definition misma_letra :: "char \<Rightarrow> char \<Rightarrow> bool" where
  "misma_letra a b =
     (a = b \<or> (es_mayuscula a \<and> (of_char b :: nat) = of_char a + 32)
            \<or> (es_mayuscula b \<and> (of_char a :: nat) = of_char b + 32))"

definition ci_equal :: "string \<Rightarrow> string \<Rightarrow> bool" where
  "ci_equal s t = list_all2 misma_letra s t"

section \<open>The class LibroDiario\<close>

text \<open>
  A transaction is the dictionary that \<^verbatim>\<open>agregar_transaccion\<close> builds, with its four
  fixed keys; the ledger object has the one attribute \<^verbatim>\<open>transacciones\<close>.
\<close>

record transaccion =
  fecha :: string
  descripcion :: string
  monto :: pyfloat
  tipo :: string

record libro_diario =
  transacciones :: "transaccion list"

text \<open>The dictionary that \<^verbatim>\<open>obtener_resumen\<close> returns.\<close>

record resumen =
  total_ingresos :: pyfloat
  total_egresos :: pyfloat
  balance_neto :: pyfloat

text \<open>
  Both failures of \<^verbatim>\<open>agregar_transaccion\<close> are a \<^verbatim>\<open>ValueError\<close>; its message tells which
  check failed: "El monto debe ser un numero positivo." or "El tipo de transaccion debe
  ser 'ingreso' o 'egreso'.". The specification calls the first InvalidAmount and the
  second InvalidKind.
\<close>

datatype mensaje = El_monto_debe_ser_positivo | El_tipo_debe_ser_ingreso_o_egreso

datatype error = ValueError mensaje

abbreviation InvalidAmount :: error where
  "InvalidAmount \<equiv> ValueError El_monto_debe_ser_positivo"

abbreviation InvalidKind :: error where
  "InvalidKind \<equiv> ValueError El_tipo_debe_ser_ingreso_o_egreso"

text \<open>\<^verbatim>\<open>__init__\<close>: the empty ledger.\<close>

definition init :: libro_diario where
  "init = \<lparr>transacciones = []\<rparr>"

text \<open>
  A method takes the object and returns what the call gives back (\<open>Inl\<close> the exception
  raised, \<open>Inr\<close> the value returned) together with the object after the call.
\<close>

definition agregar_transaccion ::
  "libro_diario \<Rightarrow> string \<Rightarrow> string \<Rightarrow> pyfloat \<Rightarrow> string \<Rightarrow> (error + unit) \<times> libro_diario" where
  "agregar_transaccion self fch dsc mnt tp =
     (if fle mnt (Fin 0) then (Inl InvalidAmount, self)
      else
        let tipo_normalizado = lower tp in
        if tipo_normalizado \<notin> set [''ingreso'', ''egreso''] then (Inl InvalidKind, self)
        else (Inr (),
              self\<lparr>transacciones := transacciones self @
                [\<lparr>fecha = fch, descripcion = dsc, monto = mnt, tipo = tipo_normalizado\<rparr>]\<rparr>))"

text \<open>The loop of \<^verbatim>\<open>obtener_resumen\<close>, on the pair of the two running totals.\<close>

fun acumular :: "pyfloat \<times> pyfloat \<Rightarrow> transaccion list \<Rightarrow> pyfloat \<times> pyfloat" where
  "acumular (ti, te) [] = (ti, te)"
| "acumular (ti, te) (t # ts) =
     (if tipo t = ''ingreso'' then acumular (fadd ti (monto t), te) ts
      else acumular (ti, fadd te (monto t)) ts)"

definition obtener_resumen :: "libro_diario \<Rightarrow> (error + resumen) \<times> libro_diario" where
  "obtener_resumen self =
     (case acumular (Fin 0, Fin 0) (transacciones self) of
        (ti, te) \<Rightarrow>
          (Inr \<lparr>total_ingresos = ti, total_egresos = te, balance_neto = fsub ti te\<rparr>, self))"

text \<open>
  The ledgers that calls of the two methods produce from the empty one. A call that
  raises leaves the object as \<open>snd\<close> of its result says, and the caller goes on.
\<close>

inductive alcanzable :: "libro_diario \<Rightarrow> bool" where
  alc_init: "alcanzable init"
| alc_agregar: "alcanzable l \<Longrightarrow> alcanzable (snd (agregar_transaccion l fch dsc mnt tp))"
| alc_resumen: "alcanzable l \<Longrightarrow> alcanzable (snd (obtener_resumen l))"

text \<open>
  A sequence of \<^verbatim>\<open>agregar_transaccion\<close> calls, each given by its four arguments, run one
  after the other on a ledger.
\<close>

type_synonym llamada = "string \<times> string \<times> pyfloat \<times> string"

fun registrar :: "libro_diario \<Rightarrow> llamada list \<Rightarrow> libro_diario" where
  "registrar l [] = l"
| "registrar l ((fch, dsc, mnt, tp) # cs) =
     registrar (snd (agregar_transaccion l fch dsc mnt tp)) cs"

text \<open>A call is valid when neither check of \<^verbatim>\<open>agregar_transaccion\<close> rejects it.\<close>

fun llamada_valida :: "llamada \<Rightarrow> bool" where
  "llamada_valida (fch, dsc, mnt, tp) =
     (flt (Fin 0) mnt \<and> lower tp \<in> set [''ingreso'', ''egreso''])"

section \<open>The notions of the specification\<close>

text \<open>
  The transactions whose kind is income, and those whose kind is expense: the ones that
  carry the label \<^verbatim>\<open>ingreso\<close>, respectively \<^verbatim>\<open>egreso\<close>.
\<close>

definition es_ingreso :: "transaccion \<Rightarrow> bool" where
  "es_ingreso t = (tipo t = ''ingreso'')"

definition es_egreso :: "transaccion \<Rightarrow> bool" where
  "es_egreso t = (tipo t = ''egreso'')"

text \<open>The amounts of the stored transactions that satisfy \<open>P\<close>, in stored order.\<close>

definition montos :: "(transaccion \<Rightarrow> bool) \<Rightarrow> libro_diario \<Rightarrow> pyfloat list" where
  "montos P l = map monto (filter P (transacciones l))"

text \<open>The transactions that the loop of \<^verbatim>\<open>obtener_resumen\<close> sends to its \<^verbatim>\<open>else\<close> branch.\<close>

definition no_es_ingreso :: "transaccion \<Rightarrow> bool" where
  "no_es_ingreso t = (tipo t \<noteq> ''ingreso'')"

text \<open>The amount that a call passes, and the transaction that a valid call stores.\<close>

fun monto_de :: "llamada \<Rightarrow> pyfloat" where
  "monto_de (fch, dsc, mnt, tp) = mnt"

fun transaccion_de :: "llamada \<Rightarrow> transaccion" where
  "transaccion_de (fch, dsc, mnt, tp) =
     \<lparr>fecha = fch, descripcion = dsc, monto = mnt, tipo = lower tp\<rparr>"

text \<open>
  No sum of elements of \<open>xs\<close> is rounded: the elements are finite, each is a whole
  multiple of \<open>2 ^ s\<close> units, and the sum of their magnitudes is below \<open>2 ^ 53\<close> such
  multiples and below the overflow threshold. The amounts \<^verbatim>\<open>500.0\<close> and \<^verbatim>\<open>120.5\<close> are of
  this kind: both are multiples of \<^verbatim>\<open>0.5\<close>, which is \<open>2 ^ 1073\<close> units.
\<close>

fun unidades :: "pyfloat \<Rightarrow> int" where
  "unidades (Fin k) = k"
| "unidades x = 0"

fun finito :: "pyfloat \<Rightarrow> bool" where
  "finito (Fin k) = True"
| "finito x = False"

definition sin_redondeo :: "nat \<Rightarrow> pyfloat list \<Rightarrow> bool" where
  "sin_redondeo s xs =
     (list_all (\<lambda>x. finito x \<and> 2 ^ s dvd unidades x) xs \<and>
      sum_list (map (\<lambda>x. \<bar>unidades x\<bar>) xs) < 2 ^ (53 + s) \<and> 53 + s \<le> 2098)"

section \<open>Rounding\<close>

lemma rne_nonneg: "0 \<le> n \<Longrightarrow> 0 \<le> rne n s"
  by (auto simp: rne_def Let_def pos_imp_zdiv_nonneg_iff)

lemma rne_nonpos:
  assumes "n \<le> 0"
  shows "rne n s \<le> 0"
proof (cases "n = 0")
  case True
  then show ?thesis by (simp add: rne_def)
next
  case False
  with assms have "n div 2 ^ s < 0" by (intro div_neg_pos_less0) simp_all
  then show ?thesis by (auto simp: rne_def Let_def)
qed

lemma rne_dvd: "2 ^ s dvd n \<Longrightarrow> rne n s * 2 ^ s = n"
  by (auto simp: rne_def Let_def)

lemma rne_ge_floor: "n div 2 ^ s \<le> rne n s"
  by (auto simp: rne_def Let_def)

lemma rne_le_ceil: "rne n s \<le> n div 2 ^ s + 1"
  by (auto simp: rne_def Let_def)

text \<open>The result of \<open>rne\<close> is at most half a step away from the exact quotient.\<close>

lemma rne_nearest: "2 * \<bar>rne n s * 2 ^ s - n\<bar> \<le> 2 ^ s"
proof -
  define q where "q = n div 2 ^ s"
  define r where "r = n mod 2 ^ s"
  have n: "n = q * 2 ^ s + r" unfolding q_def r_def by (rule div_mult_mod_eq [symmetric])
  have r: "0 \<le> r" "r < 2 ^ s" by (simp_all add: r_def)
  have "rne n s = q \<and> 2 * r \<le> 2 ^ s \<or> rne n s = q + 1 \<and> 2 ^ s \<le> 2 * r"
    by (auto simp: rne_def Let_def q_def r_def)
  then show ?thesis
  proof
    assume "rne n s = q \<and> 2 * r \<le> 2 ^ s"
    with r show ?thesis by (simp add: n)
  next
    assume a: "rne n s = q + 1 \<and> 2 ^ s \<le> 2 * r"
    then have "rne n s * 2 ^ s - n = 2 ^ s - r" by (simp add: n algebra_simps)
    with a r show ?thesis by simp
  qed
qed

lemma rne_le_multiple:
  assumes "n \<le> a" "2 ^ s dvd a"
  shows "rne n s * 2 ^ s \<le> a"
proof -
  from assms(2) obtain c where a: "a = 2 ^ s * c" by (auto simp: dvd_def)
  define q where "q = n div 2 ^ s"
  define r where "r = n mod 2 ^ s"
  have n: "n = q * 2 ^ s + r" unfolding q_def r_def by (rule div_mult_mod_eq [symmetric])
  have r: "0 \<le> r" "r < 2 ^ s" by (simp_all add: r_def)
  show ?thesis
  proof (cases "r = 0")
    case True
    then have "rne n s = q" by (simp add: rne_def q_def r_def Let_def)
    with n True assms(1) show ?thesis by simp
  next
    case False
    with r have "q * 2 ^ s < c * 2 ^ s" using n a assms(1) by (simp only: mult.commute [of "2 ^ s" c])
    then have "q < c" by simp
    then have "rne n s \<le> c" using rne_le_ceil [of n s] by (simp add: q_def)
    then have "rne n s * 2 ^ s \<le> c * 2 ^ s" by simp
    then show ?thesis by (simp add: a mult.commute)
  qed
qed

lemma bitlen_gt_iff: "w < bitlen x \<longleftrightarrow> w < 0 \<or> 2 ^ nat w \<le> x"
  using bitlen_le_iff_power [of x w] by auto

lemma round_double_exact:
  assumes m: "\<bar>m\<bar> \<le> 2 ^ 53" and k: "\<bar>m * 2 ^ t\<bar> < 2 ^ 2098"
  shows "round_double (m * 2 ^ t) = Fin (m * 2 ^ t)"
proof (cases "bitlen \<bar>m * 2 ^ t\<bar> \<le> 53")
  case True
  then show ?thesis by (simp only: round_double_def if_True)
next
  case False
  define s where "s = nat (bitlen \<bar>m * 2 ^ t\<bar> - 53)"
  from False have s: "bitlen \<bar>m * 2 ^ t\<bar> = 53 + int s" by (simp add: s_def)
  have "53 + int s - 1 < bitlen \<bar>m * 2 ^ t\<bar>" using s by simp
  then have lo: "2 ^ (52 + s) \<le> \<bar>m * 2 ^ t\<bar>"
    by (simp add: bitlen_gt_iff nat_add_distrib)
  have dvd: "2 ^ s dvd m * (2::int) ^ t"
  proof (cases "\<bar>m\<bar> = 2 ^ 53")
    case True
    then have "\<bar>m * 2 ^ t\<bar> = 2 ^ (53 + t)" by (simp add: abs_mult power_add)
    with lo have "(2::int) ^ (52 + s) \<le> 2 ^ (53 + t)" by simp
    then have "52 + s \<le> 53 + t" by (rule power_le_imp_le_exp [rotated]) simp
    then have "s \<le> Suc t" by simp
    have "(2::int) ^ s dvd 2 ^ (53 + t)" using \<open>s \<le> Suc t\<close> by (intro le_imp_power_dvd) simp
    then have "(2::int) ^ s dvd \<bar>m * 2 ^ t\<bar>" using \<open>\<bar>m * 2 ^ t\<bar> = 2 ^ (53 + t)\<close> by simp
    then show ?thesis by simp
  next
    case False
    with m have "\<bar>m\<bar> < 2 ^ 53" by simp
    then have "\<bar>m * 2 ^ t\<bar> < 2 ^ 53 * 2 ^ t" by (simp add: abs_mult)
    with lo have "(2::int) ^ (52 + s) < 2 ^ (53 + t)" by (simp add: power_add)
    then have "52 + s < 53 + t" by (rule power_less_imp_less_exp [rotated]) simp
    then have "s \<le> t" by simp
    then have "(2::int) ^ s dvd 2 ^ t" by (rule le_imp_power_dvd)
    then show ?thesis by (rule dvd_mult)
  qed
  have "round_double (m * 2 ^ t) =
     (let r = rne (m * 2 ^ t) s * 2 ^ s in
        if 2 ^ 2098 \<le> \<bar>r\<bar> then (if 0 < m * 2 ^ t then PInf else NInf) else Fin r)"
    using \<open>\<not> bitlen \<bar>m * 2 ^ t\<bar> \<le> 53\<close> unfolding round_double_def s_def Let_def by (simp only: if_False)
  also have "\<dots> = Fin (m * 2 ^ t)"
    using k unfolding Let_def rne_dvd [OF dvd] by (simp only: if_False not_le [symmetric])
  finally show ?thesis .
qed


lemma round_double_small: "\<bar>n\<bar> < 2 ^ 53 \<Longrightarrow> round_double n = Fin n"
  by (simp add: round_double_def bitlen_le_iff_power)

lemma int_div_bounds:
  fixes n d c :: int
  assumes d: "0 < d" and lo: "- (c * d) \<le> n" and hi: "n < c * d"
  shows "- c \<le> n div d" and "n div d < c"
proof -
  have n: "n = n div d * d + n mod d" by (rule div_mult_mod_eq [symmetric])
  have r: "0 \<le> n mod d" "n mod d < d" using d by simp_all
  have "n div d * d < c * d" using n r hi by linarith
  then show "n div d < c" using d by simp
  have "- (c * d) < n div d * d + d" using n r lo by linarith
  then have "- c * d < (n div d + 1) * d" by (simp add: algebra_simps)
  then have "- c < n div d + 1" using d by (simp only: mult_less_cancel_right_pos)
  then show "- c \<le> n div d" by simp
qed

lemma rne_abs_le:
  assumes "\<bar>n\<bar> < 2 ^ (53 + s)"
  shows "\<bar>rne n s\<bar> \<le> 2 ^ 53"
proof -
  have "- (2 ^ 53 * 2 ^ s) \<le> n" "n < 2 ^ 53 * 2 ^ s" using assms by (simp_all add: power_add)
  then have "- (2 ^ 53) \<le> n div 2 ^ s" "n div 2 ^ s < 2 ^ 53"
    using int_div_bounds [of "2 ^ s" "2 ^ 53" n] by simp_all
  then show ?thesis using rne_ge_floor [of n s] rne_le_ceil [of n s] by linarith
qed

lemma bitlen_abs_bound: "\<bar>n\<bar> < 2 ^ nat (bitlen \<bar>n\<bar>)"
  using bitlen_le_iff_power [of "\<bar>n\<bar>" "bitlen \<bar>n\<bar>"] by (simp add: bitlen_nonneg)

lemma is_double_round_double: "is_double (round_double n)"
proof (cases "bitlen \<bar>n\<bar> \<le> 53")
  case True
  then have "round_double n = Fin n" by (simp only: round_double_def if_True)
  then show ?thesis by simp
next
  case False
  define s where "s = nat (bitlen \<bar>n\<bar> - 53)"
  define r where "r = rne n s * 2 ^ s"
  from False have "nat (bitlen \<bar>n\<bar>) = 53 + s" by (simp add: s_def)
  with bitlen_abs_bound [of n] have "\<bar>n\<bar> < 2 ^ (53 + s)" by simp
  then have m: "\<bar>rne n s\<bar> \<le> 2 ^ 53" by (rule rne_abs_le)
  have rd: "round_double n = (if 2 ^ 2098 \<le> \<bar>r\<bar> then (if 0 < n then PInf else NInf) else Fin r)"
    using False unfolding round_double_def Let_def s_def r_def by (simp only: if_False)
  show ?thesis
  proof (cases "(2::int) ^ 2098 \<le> \<bar>r\<bar>")
    case True
    then show ?thesis unfolding rd by (cases "0 < n") (simp_all only: if_True if_False is_double.simps)
  next
    case False
    then have "\<bar>rne n s * 2 ^ s\<bar> < 2 ^ 2098" unfolding r_def by (simp only: not_le)
    with m have "round_double r = Fin r" unfolding r_def by (rule round_double_exact)
    then show ?thesis using False unfolding rd by (simp only: if_False is_double.simps)
  qed
qed


lemma round_double_cases [case_names exact pinf ninf fin]:
  obtains "bitlen \<bar>n\<bar> \<le> 53" "round_double n = Fin n"
  | s where "bitlen \<bar>n\<bar> = 53 + int s" "0 < s" "0 < n"
      "2 ^ 2098 \<le> rne n s * 2 ^ s" "round_double n = PInf"
  | s where "bitlen \<bar>n\<bar> = 53 + int s" "0 < s" "n < 0"
      "rne n s * 2 ^ s \<le> - (2 ^ 2098)" "round_double n = NInf"
  | s where "bitlen \<bar>n\<bar> = 53 + int s" "0 < s"
      "\<bar>rne n s * 2 ^ s\<bar> < 2 ^ 2098" "round_double n = Fin (rne n s * 2 ^ s)"
proof (cases "bitlen \<bar>n\<bar> \<le> 53")
  case True
  then have "round_double n = Fin n" by (simp only: round_double_def if_True)
  with True show ?thesis by (rule that(1))
next
  case False
  define s where "s = nat (bitlen \<bar>n\<bar> - 53)"
  define r where "r = rne n s * 2 ^ s"
  from False have s: "bitlen \<bar>n\<bar> = 53 + int s" "0 < s" by (simp_all add: s_def)
  have rd: "round_double n = (if 2 ^ 2098 \<le> \<bar>r\<bar> then (if 0 < n then PInf else NInf) else Fin r)"
    using False unfolding round_double_def Let_def s_def r_def by (simp only: if_False)
  from False have "n \<noteq> 0" by auto
  show ?thesis
  proof (cases "(2::int) ^ 2098 \<le> \<bar>r\<bar>")
    case big: True
    show ?thesis
    proof (cases "0 < n")
      case True
      then have "0 \<le> r" unfolding r_def by (simp add: rne_nonneg)
      with big have "2 ^ 2098 \<le> r" by (simp only: abs_of_nonneg)
      moreover have "round_double n = PInf" using big True unfolding rd by (simp only: if_True)
      ultimately show ?thesis using s True unfolding r_def by (intro that(2))
    next
      case False
      with \<open>n \<noteq> 0\<close> have neg: "n < 0" by simp
      then have "r \<le> 0" unfolding r_def by (simp add: rne_nonpos mult_le_0_iff)
      with big have "r \<le> - (2 ^ 2098)" by (simp only: abs_of_nonpos)
      moreover have "round_double n = NInf" using big False unfolding rd by (simp only: if_True if_False)
      ultimately show ?thesis using s neg unfolding r_def by (intro that(3))
    qed
  next
    case False
    then have "\<bar>r\<bar> < 2 ^ 2098" by (simp only: not_le)
    moreover have "round_double n = Fin r" using False unfolding rd by (simp only: if_False)
    ultimately show ?thesis using s unfolding r_def by (intro that(4))
  qed
qed

lemma bitlen_lower: "bitlen \<bar>n\<bar> = 53 + int s \<Longrightarrow> 2 ^ (52 + s) \<le> \<bar>n\<bar>"
  using bitlen_gt_iff [of "52 + int s" "\<bar>n\<bar>"] by (simp add: nat_add_distrib)

lemma round_double_nonneg:
  assumes "0 \<le> n"
  shows "fle (Fin 0) (round_double n)"
proof (cases n rule: round_double_cases)
  case exact
  with assms show ?thesis by simp
next
  case (pinf s)
  then show ?thesis by simp
next
  case (ninf s)
  with assms show ?thesis by simp
next
  case (fin s)
  with assms show ?thesis by (simp add: rne_nonneg)
qed

lemma is_double_bound:
  assumes "is_double (Fin a)"
  shows "\<bar>a\<bar> < 2 ^ 2098"
proof (cases a rule: round_double_cases)
  case exact
  then have "\<bar>a\<bar> < 2 ^ 53" by (simp add: bitlen_le_iff_power)
  then show ?thesis by simp
next
  case (fin s)
  with assms have "a = rne a s * 2 ^ s" by simp
  with fin(3) show ?thesis by simp
qed (use assms in simp_all)

lemma is_double_dvd:
  assumes "is_double (Fin a)" and "53 + int s \<le> bitlen \<bar>a\<bar>"
  shows "2 ^ s dvd a"
proof (cases a rule: round_double_cases)
  case exact
  with assms(2) have "s = 0" by linarith
  then show ?thesis by simp
next
  case (fin s')
  with assms(1) have "a = rne a s' * 2 ^ s'" by simp
  then have "2 ^ s' dvd a" by (metis dvd_triv_right)
  moreover from fin(1) assms(2) have "s \<le> s'" by simp
  then have "(2::int) ^ s dvd 2 ^ s'" by (rule le_imp_power_dvd)
  ultimately show ?thesis by (rule dvd_trans [rotated])
qed (use assms in simp_all)

lemma round_double_le:
  assumes na: "n \<le> a" and a0: "0 \<le> a" and da: "is_double (Fin a)"
  shows "fle (round_double n) (Fin a)"
proof (cases "0 < n")
  case False
  then have n0: "n \<le> 0" by simp
  show ?thesis
  proof (cases n rule: round_double_cases)
    case exact
    with na show ?thesis by simp
  next
    case (fin s)
    from n0 have "rne n s * 2 ^ s \<le> 0" by (simp add: rne_nonpos mult_le_0_iff)
    with a0 fin(4) show ?thesis by simp
  qed (use n0 in simp_all)
next
  case True
  show ?thesis
  proof (cases n rule: round_double_cases)
    case exact
    with na show ?thesis by simp
  next
    case (ninf s)
    then show ?thesis by simp
  next
    case (pinf s)
    from pinf(1) have "2 ^ (52 + s) \<le> \<bar>n\<bar>" by (rule bitlen_lower)
    with True na a0 have "2 ^ (52 + s) \<le> \<bar>a\<bar>" by simp
    then have "53 + int s \<le> bitlen \<bar>a\<bar>" by (simp add: bitlen_ge_iff_power nat_add_distrib)
    with da have "2 ^ s dvd a" by (rule is_double_dvd)
    with na have "rne n s * 2 ^ s \<le> a" by (rule rne_le_multiple)
    with pinf(4) is_double_bound [OF da] show ?thesis by simp
  next
    case (fin s)
    from fin(1) have "2 ^ (52 + s) \<le> \<bar>n\<bar>" by (rule bitlen_lower)
    with True na a0 have "2 ^ (52 + s) \<le> \<bar>a\<bar>" by simp
    then have "53 + int s \<le> bitlen \<bar>a\<bar>" by (simp add: bitlen_ge_iff_power nat_add_distrib)
    with da have "2 ^ s dvd a" by (rule is_double_dvd)
    with na have "rne n s * 2 ^ s \<le> a" by (rule rne_le_multiple)
    with fin(4) show ?thesis by simp
  qed
qed

lemma round_double_overflow:
  assumes "2 ^ 2098 \<le> n"
  shows "round_double n = PInf"
proof (cases n rule: round_double_cases)
  case exact
  then have "\<bar>n\<bar> < 2 ^ 53" by (simp add: bitlen_le_iff_power)
  with assms show ?thesis by simp
next
  case (ninf s)
  with assms show ?thesis by simp
next
  case (pinf s)
  then show ?thesis by simp
next
  case (fin s)
  have n0: "0 < n" using assms by simp
  have "2 ^ 2098 \<le> rne n s * 2 ^ s"
  proof (cases "s \<le> 2098")
    case True
    then have "(2::int) ^ 2098 = 2 ^ (2098 - s) * 2 ^ s" by (simp flip: power_add)
    with assms have "2 ^ (2098 - s) * 2 ^ s \<le> n" by simp
    then have "2 ^ (2098 - s) * 2 ^ s div 2 ^ s \<le> n div 2 ^ s" by (intro zdiv_mono1) simp_all
    then have "2 ^ (2098 - s) \<le> rne n s" using rne_ge_floor [of n s] by simp
    then have "2 ^ (2098 - s) * 2 ^ s \<le> rne n s * 2 ^ s" by simp
    with \<open>(2::int) ^ 2098 = 2 ^ (2098 - s) * 2 ^ s\<close> show ?thesis by simp
  next
    case False
    from fin(1) have "2 ^ (52 + s) \<le> \<bar>n\<bar>" by (rule bitlen_lower)
    with n0 have "2 ^ 52 * 2 ^ s \<le> n" by (simp add: power_add)
    then have "2 ^ 52 * 2 ^ s div 2 ^ s \<le> n div 2 ^ s" by (intro zdiv_mono1) simp_all
    then have "2 ^ 52 \<le> rne n s" using rne_ge_floor [of n s] by simp
    then have *: "2 ^ 52 * 2 ^ s \<le> rne n s * 2 ^ s" by simp
    have "(2::int) ^ 2098 \<le> 2 ^ (52 + s)" using False by (intro power_increasing) simp_all
    also have "\<dots> = 2 ^ 52 * 2 ^ s" by (rule power_add)
    also note *
    finally show ?thesis .
  qed
  with fin(3) show ?thesis by simp
qed

lemma diadico_exact:
  assumes "\<bar>m\<bar> < 2 ^ 53" and "\<bar>m\<bar> * 2 ^ nat (e + 1074) < 2 ^ 2098"
  shows "diadico m e = Fin (m * 2 ^ nat (e + 1074))"
  unfolding diadico_def using assms by (intro round_double_exact) (simp_all add: abs_mult)

lemma fadd_zero_left: "is_double x \<Longrightarrow> fadd (Fin 0) x = x"
  by (cases x) simp_all

lemma flt_imp_not_fle: "flt (Fin 0) x \<Longrightarrow> \<not> fle x (Fin 0)"
  by (cases x) simp_all

lemma round_double_multiple:
  assumes dvd: "2 ^ s dvd n" and lt: "\<bar>n\<bar> < 2 ^ (53 + s)" and s: "53 + s \<le> 2098"
  shows "round_double n = Fin n"
proof -
  from dvd obtain m where n: "n = m * 2 ^ s" by (auto simp: dvd_def mult.commute)
  have "\<bar>m\<bar> * 2 ^ s < 2 ^ 53 * 2 ^ s" using lt by (simp add: n abs_mult power_add)
  then have "\<bar>m\<bar> < 2 ^ 53" by simp
  then have m: "\<bar>m\<bar> \<le> 2 ^ 53" by simp
  have "(2::int) ^ (53 + s) \<le> 2 ^ 2098" using s by (intro power_increasing) simp_all
  with lt have "\<bar>m * 2 ^ s\<bar> < 2 ^ 2098" unfolding n by (rule less_le_trans)
  with m show ?thesis unfolding n by (rule round_double_exact)
qed

lemma round_double_eqI:
  assumes lo: "2 ^ (52 + s) \<le> \<bar>n\<bar>" and hi: "\<bar>n\<bar> < 2 ^ (53 + s)" and s: "0 < s"
    and r: "\<bar>rne n s * 2 ^ s\<bar> < 2 ^ 2098"
  shows "round_double n = Fin (rne n s * 2 ^ s)"
proof -
  have "bitlen \<bar>n\<bar> \<le> 53 + int s" using hi by (simp add: bitlen_le_iff_power nat_add_distrib)
  moreover have "53 + int s \<le> bitlen \<bar>n\<bar>" using lo by (simp add: bitlen_ge_iff_power nat_add_distrib)
  ultimately have b: "bitlen \<bar>n\<bar> = 53 + int s" by simp
  show ?thesis
  proof (cases n rule: round_double_cases)
    case exact
    with b s show ?thesis by simp
  next
    case (pinf s')
    with b r show ?thesis by simp
  next
    case (ninf s')
    with b r show ?thesis by simp
  next
    case (fin s')
    with b show ?thesis by simp
  qed
qed

lemma is_double_fadd: "is_double (fadd x y)"
  by (cases x; cases y) (simp_all add: is_double_round_double)

lemma is_double_foldl_fadd: "is_double a \<Longrightarrow> is_double (foldl fadd a xs)"
  by (induction xs arbitrary: a) (simp_all add: is_double_fadd)

lemma is_double_suma: "is_double (suma xs)"
  unfolding suma_def by (rule is_double_foldl_fadd) (simp add: round_double_small)

lemma fsub_zero_right: "is_double x \<Longrightarrow> fsub x (Fin 0) = x"
  by (cases x) (simp_all add: fsub_def)

lemma fadd_nonneg:
  assumes "is_double x" "fle (Fin 0) x" "flt (Fin 0) y"
  shows "fle (Fin 0) (fadd x y)"
  using assms by (cases x; cases y) (simp_all add: round_double_nonneg)

lemma foldl_fadd_nonneg:
  assumes "is_double a" "fle (Fin 0) a" "\<forall>x \<in> set xs. flt (Fin 0) x"
  shows "fle (Fin 0) (foldl fadd a xs)"
  using assms
proof (induction xs arbitrary: a)
  case Nil
  then show ?case by simp
next
  case (Cons x xs)
  then show ?case by (simp add: is_double_fadd fadd_nonneg)
qed

lemma suma_nonneg: "\<forall>x \<in> set xs. flt (Fin 0) x \<Longrightarrow> fle (Fin 0) (suma xs)"
  unfolding suma_def by (rule foldl_fadd_nonneg) (simp_all add: round_double_small)

lemma fsub_le:
  assumes "is_double x" "fle (Fin 0) x" "fle (Fin 0) y" "\<not> (x = PInf \<and> y = PInf)"
  shows "fle (fsub x y) x"
proof (cases x)
  case (Fin a)
  note x = this
  show ?thesis
  proof (cases y)
    case (Fin b)
    have "fle (round_double (a - b)) (Fin a)"
      using assms unfolding x Fin by (intro round_double_le) simp_all
    then show ?thesis by (simp add: x Fin fsub_def)
  qed (use assms x in \<open>simp_all add: fsub_def\<close>)
qed (use assms in \<open>cases y; simp_all add: fsub_def\<close>)+

lemma not_fle_flt: "\<not> fle x (Fin 0) \<Longrightarrow> x \<noteq> NaN \<Longrightarrow> flt (Fin 0) x"
  by (cases x) simp_all

section \<open>Sums without rounding\<close>

lemma foldl_fadd_exact:
  assumes "\<forall>x \<in> set xs. finito x \<and> 2 ^ s dvd unidades x"
    and "2 ^ s dvd a"
    and "\<bar>a\<bar> + sum_list (map (\<lambda>x. \<bar>unidades x\<bar>) xs) < 2 ^ (53 + s)"
    and "53 + s \<le> 2098"
  shows "foldl fadd (Fin a) xs = Fin (a + sum_list (map unidades xs))"
  using assms
proof (induction xs arbitrary: a)
  case Nil
  then show ?case by simp
next
  case (Cons x xs)
  from Cons.prems(1) obtain k where x: "x = Fin k" and k: "2 ^ s dvd k"
    by (cases x) auto
  have nn: "0 \<le> sum_list (map (\<lambda>x. \<bar>unidades x\<bar>) xs)" by (rule sum_list_nonneg) auto
  have dvd: "2 ^ s dvd a + k" using Cons.prems(2) k by (rule dvd_add)
  have lt: "\<bar>a + k\<bar> + sum_list (map (\<lambda>x. \<bar>unidades x\<bar>) xs) < 2 ^ (53 + s)"
    using Cons.prems(3) by (simp add: x)
  with nn have "\<bar>a + k\<bar> < 2 ^ (53 + s)" by linarith
  with dvd have "round_double (a + k) = Fin (a + k)" using Cons.prems(4)
    by (rule round_double_multiple)
  then have "foldl fadd (Fin a) (x # xs) = foldl fadd (Fin (a + k)) xs" by (simp add: x)
  also have "\<dots> = Fin (a + k + sum_list (map unidades xs))"
    using Cons.prems(1) dvd lt Cons.prems(4) by (intro Cons.IH) simp_all
  finally show ?case by (simp add: x)
qed

lemma sum_list_abs_filter_le:
  "sum_list (map (\<lambda>x. \<bar>f x :: int\<bar>) (filter P xs)) \<le> sum_list (map (\<lambda>x. \<bar>f x\<bar>) xs)"
  by (induction xs) auto

lemma suma_filter_exacta:
  assumes "sin_redondeo s (map monto ts)"
  shows "suma (map monto (filter P ts)) = Fin (sum_list (map (\<lambda>t. unidades (monto t)) (filter P ts)))"
proof -
  from assms have all: "\<forall>t \<in> set ts. finito (monto t) \<and> 2 ^ s dvd unidades (monto t)"
    and lt: "sum_list (map (\<lambda>t. \<bar>unidades (monto t)\<bar>) ts) < 2 ^ (53 + s)" and s: "53 + s \<le> 2098"
    unfolding sin_redondeo_def list_all_iff list.map_comp comp_def set_map ball_simps by blast+
  have "foldl fadd (Fin 0) (map monto (filter P ts)) =
      Fin (0 + sum_list (map unidades (map monto (filter P ts))))"
  proof (rule foldl_fadd_exact [where s = s])
    show "\<forall>x \<in> set (map monto (filter P ts)). finito x \<and> 2 ^ s dvd unidades x"
      using all by auto
    show "\<bar>0\<bar> + sum_list (map (\<lambda>x. \<bar>unidades x\<bar>) (map monto (filter P ts))) < 2 ^ (53 + s)"
      using sum_list_abs_filter_le [of "\<lambda>t. unidades (monto t)" P ts] lt by (simp add: comp_def)
  qed (simp_all add: s)
  then show ?thesis by (simp add: suma_def comp_def)
qed

lemma sum_list_filter_split:
  "sum_list (map (f :: 'a \<Rightarrow> int) (filter P xs)) + sum_list (map f (filter (\<lambda>x. \<not> P x) xs)) =
   sum_list (map f xs)"
  by (induction xs) auto

lemma sum_list_mset_cong:
  assumes "mset xs = mset ys"
  shows "sum_list (map (f :: 'a \<Rightarrow> int) (filter P xs)) = sum_list (map f (filter P ys))"
proof -
  have "sum_list (map f (filter P xs)) = sum_mset (image_mset f (filter_mset P (mset xs)))"
    by (simp flip: sum_mset_sum_list)
  also have "\<dots> = sum_mset (image_mset f (filter_mset P (mset ys)))" by (simp only: assms)
  also have "\<dots> = sum_list (map f (filter P ys))" by (simp flip: sum_mset_sum_list)
  finally show ?thesis .
qed

lemma sin_redondeo_mset:
  assumes "mset xs = mset ys" and "sin_redondeo s xs"
  shows "sin_redondeo s ys"
proof -
  from assms(1) have "set xs = set ys" by (rule mset_eq_setD)
  moreover have "sum_list (map (\<lambda>x. \<bar>unidades x\<bar>) xs) = sum_list (map (\<lambda>x. \<bar>unidades x\<bar>) ys)"
    using sum_list_mset_cong [OF assms(1), of "\<lambda>x. \<bar>unidades x\<bar>" "\<lambda>x. True"] by simp
  moreover from assms(2) have "\<forall>x \<in> set xs. finito x \<and> 2 ^ s dvd unidades x"
    "sum_list (map (\<lambda>x. \<bar>unidades x\<bar>) xs) < 2 ^ (53 + s)" "53 + s \<le> 2098"
    unfolding sin_redondeo_def list_all_iff by blast+
  ultimately show ?thesis unfolding sin_redondeo_def list_all_iff by metis
qed

section \<open>Lowering a kind\<close>

lemma lower_char_eq_iff:
  assumes "\<not> es_mayuscula b"
  shows "lower_char a = b \<longleftrightarrow> misma_letra a b"
proof (cases "es_mayuscula a")
  case False
  with assms show ?thesis by (auto simp: lower_char_def misma_letra_def)
next
  case True
  then have lt: "(of_char a :: nat) + 32 < 256" by (simp add: es_mayuscula_def)
  have "char_of (of_char a + 32 :: nat) = b \<longleftrightarrow> (of_char b :: nat) = of_char a + 32"
    by (metis char_of_char lt mod_less of_char_of)
  moreover have "a \<noteq> b" using True assms by auto
  ultimately show ?thesis using True assms by (auto simp: lower_char_def misma_letra_def)
qed

lemma lower_eq_iff:
  assumes "\<forall>c \<in> set t. \<not> es_mayuscula c"
  shows "lower s = t \<longleftrightarrow> ci_equal s t"
  using assms unfolding lower_def ci_equal_def
proof (induction s arbitrary: t)
  case Nil
  then show ?case by auto
next
  case (Cons a s)
  then show ?case by (cases t) (auto simp: lower_char_eq_iff)
qed

lemma no_mayuscula_ingreso: "\<forall>c \<in> set ''ingreso''. \<not> es_mayuscula c"
  by (simp add: es_mayuscula_def)

lemma no_mayuscula_egreso: "\<forall>c \<in> set ''egreso''. \<not> es_mayuscula c"
  by (simp add: es_mayuscula_def)

lemma tipo_reconocido_iff:
  "lower tp \<in> set [''ingreso'', ''egreso''] \<longleftrightarrow> ci_equal tp ''ingreso'' \<or> ci_equal tp ''egreso''"
  by (simp add: lower_eq_iff no_mayuscula_ingreso no_mayuscula_egreso)

section \<open>The two methods\<close>

lemma acumular_filter:
  "acumular (a, b) ts =
     (foldl fadd a (map monto (filter (\<lambda>t. tipo t = ''ingreso'') ts)),
      foldl fadd b (map monto (filter (\<lambda>t. tipo t \<noteq> ''ingreso'') ts)))"
  by (induction ts arbitrary: a b) simp_all

lemma agregar_cases:
  "snd (agregar_transaccion l fch dsc mnt tp) = l \<or>
   (\<not> fle mnt (Fin 0) \<and> lower tp \<in> set [''ingreso'', ''egreso''] \<and>
    snd (agregar_transaccion l fch dsc mnt tp) =
      l\<lparr>transacciones := transacciones l @
        [\<lparr>fecha = fch, descripcion = dsc, monto = mnt, tipo = lower tp\<rparr>]\<rparr>)"
  by (simp add: agregar_transaccion_def Let_def)

lemma agregar_solo_anexa:
  "\<exists>ts. transacciones (snd (agregar_transaccion l fch dsc mnt tp)) = transacciones l @ ts"
  using agregar_cases [of l fch dsc mnt tp] by auto

lemma snd_obtener_resumen: "snd (obtener_resumen l) = l"
  by (simp add: obtener_resumen_def split: prod.split)

lemma alcanzable_inv:
  assumes "alcanzable l"
  shows "\<forall>t \<in> set (transacciones l).
           \<not> fle (monto t) (Fin 0) \<and> (tipo t = ''ingreso'' \<or> tipo t = ''egreso'')"
  using assms
proof (induction rule: alcanzable.induct)
  case alc_init
  then show ?case by (simp add: init_def)
next
  case (alc_agregar l fch dsc mnt tp)
  then show ?case using agregar_cases [of l fch dsc mnt tp] by auto
next
  case (alc_resumen l)
  then show ?case by (simp add: snd_obtener_resumen)
qed

lemma fadd_zero_diadico: "fadd (Fin 0) (diadico m e) = diadico m e"
  by (rule fadd_zero_left) (simp add: diadico_def is_double_round_double)

lemma fsub_zero_diadico: "fsub (diadico m e) (Fin 0) = diadico m e"
  by (rule fsub_zero_right) (simp add: diadico_def is_double_round_double)

lemma lower_etiquetas: "lower ''ingreso'' = ''ingreso''" "lower ''egreso'' = ''egreso''"
  by code_simp+

lemma registrar_validas:
  assumes "\<forall>c \<in> set cs. llamada_valida c"
  shows "registrar l cs = l\<lparr>transacciones := transacciones l @ map transaccion_de cs\<rparr>"
  using assms
proof (induction cs arbitrary: l)
  case Nil
  then show ?case by simp
next
  case (Cons c cs)
  obtain fch dsc mnt tp where c: "c = (fch, dsc, mnt, tp)" by (cases c) auto
  from Cons.prems have "flt (Fin 0) mnt" "lower tp \<in> set [''ingreso'', ''egreso'']"
    by (simp_all add: c)
  then have "snd (agregar_transaccion l fch dsc mnt tp) =
      l\<lparr>transacciones := transacciones l @ [transaccion_de c]\<rparr>"
    by (simp add: agregar_transaccion_def Let_def flt_imp_not_fle c)
  with Cons show ?case by (simp add: c)
qed

lemma monto_transaccion_de: "monto (transaccion_de c) = monto_de c"
  by (cases c) simp

lemma alcanzable_registrar: "alcanzable l \<Longrightarrow> alcanzable (registrar l cs)"
proof (induction cs arbitrary: l)
  case Nil
  then show ?case by simp
next
  case (Cons c cs)
  obtain fch dsc mnt tp where c: "c = (fch, dsc, mnt, tp)" by (cases c) auto
  from Cons.prems have "alcanzable (snd (agregar_transaccion l fch dsc mnt tp))"
    by (rule alc_agregar)
  then show ?case unfolding c registrar.simps by (rule Cons.IH)
qed

lemma registrar_montos:
  "set (map monto (transacciones (registrar l cs))) \<subseteq>
     set (map monto (transacciones l)) \<union> set (map monto_de cs)"
proof (induction cs arbitrary: l)
  case Nil
  then show ?case by simp
next
  case (Cons c cs)
  obtain fch dsc mnt tp where c: "c = (fch, dsc, mnt, tp)" by (cases c) auto
  have "set (map monto (transacciones (snd (agregar_transaccion l fch dsc mnt tp)))) \<subseteq>
      set (map monto (transacciones l)) \<union> {mnt}"
    using agregar_cases [of l fch dsc mnt tp] by auto
  with Cons.IH [of "snd (agregar_transaccion l fch dsc mnt tp)"] show ?case
    by (auto simp: c)
qed

lemma resumen_exacto:
  assumes "sin_redondeo s (map monto (transacciones l))"
  shows "fst (obtener_resumen l) =
    Inr \<lparr>total_ingresos = Fin (sum_list (map (\<lambda>t. unidades (monto t)) (filter es_ingreso (transacciones l)))),
         total_egresos = Fin (sum_list (map (\<lambda>t. unidades (monto t)) (filter no_es_ingreso (transacciones l)))),
         balance_neto = fsub
           (Fin (sum_list (map (\<lambda>t. unidades (monto t)) (filter es_ingreso (transacciones l)))))
           (Fin (sum_list (map (\<lambda>t. unidades (monto t)) (filter no_es_ingreso (transacciones l)))))\<rparr>"
proof -
  have i: "(\<lambda>t. tipo t = ''ingreso'') = es_ingreso" by (auto simp: es_ingreso_def)
  have e: "(\<lambda>t. tipo t \<noteq> ''ingreso'') = no_es_ingreso" by (auto simp: no_es_ingreso_def)
  show ?thesis
    using suma_filter_exacta [OF assms, of es_ingreso] suma_filter_exacta [OF assms, of no_es_ingreso]
    by (simp add: obtener_resumen_def acumular_filter i e suma_def)
qed

lemma obtener_resumen_suma:
  "fst (obtener_resumen self) =
     Inr \<lparr>total_ingresos = suma (montos es_ingreso self),
          total_egresos = suma (montos no_es_ingreso self),
          balance_neto = fsub (suma (montos es_ingreso self)) (suma (montos no_es_ingreso self))\<rparr>"
proof -
  have i: "(\<lambda>t. tipo t = ''ingreso'') = es_ingreso" by (auto simp: es_ingreso_def)
  have e: "(\<lambda>t. tipo t \<noteq> ''ingreso'') = no_es_ingreso" by (auto simp: no_es_ingreso_def)
  show ?thesis
    by (simp add: obtener_resumen_def acumular_filter i e suma_def montos_def)
qed

section \<open>The claims\<close>

text \<open>
  C1, as amended. For every ledger whose stored transactions all carry the kind
  \<^verbatim>\<open>ingreso\<close> or \<^verbatim>\<open>egreso\<close> (every ledger that \<^verbatim>\<open>agregar_transaccion\<close> builds is one, by
  \<open>alcanzable_inv\<close>), \<^verbatim>\<open>obtener_resumen\<close> returns as \<^verbatim>\<open>total_ingresos\<close> the sum of the amounts
  of the income transactions, as \<^verbatim>\<open>total_egresos\<close> the sum of the amounts of the expense
  transactions, as \<^verbatim>\<open>balance_neto\<close> the first minus the second, and leaves the ledger as
  it was. The sums are float sums from \<^verbatim>\<open>0.0\<close> in stored order.
\<close>

theorem resumen_es_suma_por_tipo:
  assumes "\<forall>t \<in> set (transacciones self). es_ingreso t \<or> es_egreso t"
  shows "obtener_resumen self =
     (Inr \<lparr>total_ingresos = suma (montos es_ingreso self),
           total_egresos = suma (montos es_egreso self),
           balance_neto = fsub (suma (montos es_ingreso self)) (suma (montos es_egreso self))\<rparr>,
      self)"
proof -
  have "filter (\<lambda>t. tipo t \<noteq> ''ingreso'') (transacciones self) = filter es_egreso (transacciones self)"
    using assms by (intro filter_cong) (auto simp: es_ingreso_def es_egreso_def)
  moreover have "filter (\<lambda>t. tipo t = ''ingreso'') (transacciones self) = filter es_ingreso (transacciones self)"
    by (intro filter_cong) (auto simp: es_ingreso_def)
  ultimately show ?thesis
    by (simp add: obtener_resumen_def acumular_filter suma_def montos_def)
qed

text \<open>
  Witness for C1: the ledger of the module's own example, \<^verbatim>\<open>500.0\<close> of income and
  \<^verbatim>\<open>120.50\<close> of expense; the balance is \<^verbatim>\<open>379.5\<close>.
\<close>

theorem resumen_es_suma_por_tipo_witness:
  "list_all (\<lambda>t. es_ingreso t \<or> es_egreso t) (transacciones
      \<lparr>transacciones =
        [\<lparr>fecha = ''2025-01-28'', descripcion = ''Venta de servicios'', monto = diadico 500 0, tipo = ''ingreso''\<rparr>,
         \<lparr>fecha = ''2025-01-29'', descripcion = ''Pago de luz'', monto = diadico 241 (- 1), tipo = ''egreso''\<rparr>]\<rparr>) \<and>
   fst (obtener_resumen
      \<lparr>transacciones =
        [\<lparr>fecha = ''2025-01-28'', descripcion = ''Venta de servicios'', monto = diadico 500 0, tipo = ''ingreso''\<rparr>,
         \<lparr>fecha = ''2025-01-29'', descripcion = ''Pago de luz'', monto = diadico 241 (- 1), tipo = ''egreso''\<rparr>]\<rparr>) =
     Inr \<lparr>total_ingresos = diadico 500 0, total_egresos = diadico 241 (- 1), balance_neto = diadico 759 (- 1)\<rparr>"
proof -
  let ?l = "\<lparr>transacciones =
        [\<lparr>fecha = ''2025-01-28'', descripcion = ''Venta de servicios'', monto = diadico 500 0, tipo = ''ingreso''\<rparr>,
         \<lparr>fecha = ''2025-01-29'', descripcion = ''Pago de luz'', monto = diadico 241 (- 1), tipo = ''egreso''\<rparr>]\<rparr>"
  have h: "\<forall>t \<in> set (transacciones ?l). es_ingreso t \<or> es_egreso t"
    by (simp add: es_ingreso_def es_egreso_def)
  have a: "diadico 500 0 = Fin (500 * 2 ^ 1074)" using diadico_exact [of 500 0] by simp
  have b: "diadico 241 (- 1) = Fin (241 * 2 ^ 1073)" using diadico_exact [of 241 "- 1"] by simp
  have "fsub (diadico 500 0) (diadico 241 (- 1)) = round_double (759 * 2 ^ 1073)"
    by (simp add: a b fsub_def)
  then have c: "fsub (diadico 500 0) (diadico 241 (- 1)) = diadico 759 (- 1)"
    by (simp add: diadico_def)
  have i: "suma (montos es_ingreso ?l) = diadico 500 0"
    by (simp add: montos_def es_ingreso_def suma_def fadd_zero_diadico)
  have e: "suma (montos es_egreso ?l) = diadico 241 (- 1)"
    by (simp add: montos_def es_egreso_def suma_def fadd_zero_diadico)
  have "list_all (\<lambda>t. es_ingreso t \<or> es_egreso t) (transacciones ?l)"
    using h by (simp only: list_all_iff)
  then show ?thesis using resumen_es_suma_por_tipo [OF h] by (simp only: i e c fst_conv simp_thms)
qed

text \<open>
  Counterexample to C1 as stated, for every ledger state: a ledger that holds one
  transaction of kind \<^verbatim>\<open>otro\<close>. The loop's \<^verbatim>\<open>else\<close> branch adds its amount to
  \<^verbatim>\<open>total_egresos\<close>, while no stored transaction has the kind expense.
\<close>

theorem resumen_tipo_desconocido_counterexample:
  "obtener_resumen \<lparr>transacciones =
      [\<lparr>fecha = ''2025-01-30'', descripcion = ''Ajuste'', monto = diadico 5 0, tipo = ''otro''\<rparr>]\<rparr> \<noteq>
   (Inr \<lparr>total_ingresos = suma (montos es_ingreso \<lparr>transacciones =
            [\<lparr>fecha = ''2025-01-30'', descripcion = ''Ajuste'', monto = diadico 5 0, tipo = ''otro''\<rparr>]\<rparr>),
         total_egresos = suma (montos es_egreso \<lparr>transacciones =
            [\<lparr>fecha = ''2025-01-30'', descripcion = ''Ajuste'', monto = diadico 5 0, tipo = ''otro''\<rparr>]\<rparr>),
         balance_neto = fsub
           (suma (montos es_ingreso \<lparr>transacciones =
            [\<lparr>fecha = ''2025-01-30'', descripcion = ''Ajuste'', monto = diadico 5 0, tipo = ''otro''\<rparr>]\<rparr>))
           (suma (montos es_egreso \<lparr>transacciones =
            [\<lparr>fecha = ''2025-01-30'', descripcion = ''Ajuste'', monto = diadico 5 0, tipo = ''otro''\<rparr>]\<rparr>))\<rparr>,
    \<lparr>transacciones =
      [\<lparr>fecha = ''2025-01-30'', descripcion = ''Ajuste'', monto = diadico 5 0, tipo = ''otro''\<rparr>]\<rparr>)"
proof -
  have a: "diadico 5 0 = Fin (5 * 2 ^ 1074)" using diadico_exact [of 5 0] by simp
  have "diadico 5 0 \<noteq> Fin 0" unfolding a by simp
  then show ?thesis
    by (simp add: obtener_resumen_def montos_def es_ingreso_def es_egreso_def suma_def
        fadd_zero_diadico)
qed

text \<open>
  C2. For every ledger and every amount \<^verbatim>\<open><= 0\<close>, whatever the date, the description and
  the kind, \<^verbatim>\<open>agregar_transaccion\<close> raises the \<^verbatim>\<open>ValueError\<close> of the amount check and the
  ledger is unchanged.
\<close>

theorem monto_no_positivo_rechazado:
  "fle mnt (Fin 0) \<Longrightarrow> agregar_transaccion self fch dsc mnt tp = (Inl InvalidAmount, self)"
  by (simp add: agregar_transaccion_def)

text \<open>Witness for C2: the amount \<^verbatim>\<open>-10\<close> on the empty ledger.\<close>

theorem monto_no_positivo_rechazado_witness:
  "fle (diadico (- 10) 0) (Fin 0) \<and>
   agregar_transaccion init ''d'' ''desc'' (diadico (- 10) 0) ''ingreso'' = (Inl InvalidAmount, init)"
proof -
  have h: "fle (diadico (- 10) 0) (Fin 0)" using diadico_exact [of "- 10" 0] by simp
  from h monto_no_positivo_rechazado [OF h] show ?thesis by simp
qed

text \<open>
  C3, as amended. For every ledger and every amount \<^verbatim>\<open>> 0\<close>: a kind that is not equal, up
  to the case of its letters, to \<^verbatim>\<open>ingreso\<close> or \<^verbatim>\<open>egreso\<close> makes \<^verbatim>\<open>agregar_transaccion\<close>
  raise the \<^verbatim>\<open>ValueError\<close> of the kind check and leaves the ledger unchanged; a kind that
  is equal to one of the two up to case passes the check, and the call returns.
\<close>

theorem tipo_no_reconocido_rechazado:
  assumes "flt (Fin 0) mnt"
  shows "(\<not> (ci_equal tp ''ingreso'' \<or> ci_equal tp ''egreso'') \<longrightarrow>
            agregar_transaccion self fch dsc mnt tp = (Inl InvalidKind, self)) \<and>
         (ci_equal tp ''ingreso'' \<or> ci_equal tp ''egreso'' \<longrightarrow>
            fst (agregar_transaccion self fch dsc mnt tp) = Inr ())"
proof -
  from assms have "\<not> fle mnt (Fin 0)" by (rule flt_imp_not_fle)
  then show ?thesis
    using tipo_reconocido_iff [of tp] by (auto simp: agregar_transaccion_def Let_def)
qed

text \<open>Witness for C3: the kinds \<^verbatim>\<open>donation\<close> and \<^verbatim>\<open>Egreso\<close> with the amount \<^verbatim>\<open>10\<close>.\<close>

theorem tipo_no_reconocido_rechazado_witness:
  "flt (Fin 0) (diadico 10 0) \<and>
   \<not> (ci_equal ''donation'' ''ingreso'' \<or> ci_equal ''donation'' ''egreso'') \<and>
   agregar_transaccion init ''d'' ''desc'' (diadico 10 0) ''donation'' = (Inl InvalidKind, init) \<and>
   (ci_equal ''Egreso'' ''ingreso'' \<or> ci_equal ''Egreso'' ''egreso'') \<and>
   fst (agregar_transaccion init ''d'' ''desc'' (diadico 10 0) ''Egreso'') = Inr ()"
proof -
  have h: "flt (Fin 0) (diadico 10 0)" using diadico_exact [of 10 0] by simp
  have k: "\<not> (ci_equal ''donation'' ''ingreso'' \<or> ci_equal ''donation'' ''egreso'')" by code_simp
  have l: "ci_equal ''Egreso'' ''ingreso'' \<or> ci_equal ''Egreso'' ''egreso''" by code_simp
  from h k l tipo_no_reconocido_rechazado [OF h, of "''donation''" init "''d''" "''desc''"]
    tipo_no_reconocido_rechazado [OF h, of "''Egreso''" init "''d''" "''desc''"]
  show ?thesis by blast
qed

text \<open>
  Counterexample to C3 as stated, with the labels \<^verbatim>\<open>income\<close> and \<^verbatim>\<open>expense\<close>: the kind
  \<^verbatim>\<open>ingreso\<close> is equal to neither and is accepted, and the kind \<^verbatim>\<open>income\<close> is rejected by
  the kind check.
\<close>

theorem tipo_income_counterexample:
  "flt (Fin 0) (diadico 10 0) \<and>
   \<not> ci_equal ''ingreso'' ''income'' \<and> \<not> ci_equal ''ingreso'' ''expense'' \<and>
   agregar_transaccion init ''d'' ''desc'' (diadico 10 0) ''ingreso'' \<noteq> (Inl InvalidKind, init) \<and>
   ci_equal ''income'' ''income'' \<and>
   agregar_transaccion init ''d'' ''desc'' (diadico 10 0) ''income'' = (Inl InvalidKind, init)"
proof -
  have h: "flt (Fin 0) (diadico 10 0)" using diadico_exact [of 10 0] by simp
  then have n: "\<not> fle (diadico 10 0) (Fin 0)" by (rule flt_imp_not_fle)
  have a: "\<not> ci_equal ''ingreso'' ''income''" "\<not> ci_equal ''ingreso'' ''expense''"
    "ci_equal ''income'' ''income''" by code_simp+
  have b: "lower ''ingreso'' = ''ingreso''" "lower ''income'' = ''income''" by code_simp+
  show ?thesis using h n a by (simp add: agregar_transaccion_def b)
qed

text \<open>
  C4. The amount is checked before the kind: when the amount is \<^verbatim>\<open><= 0\<close> and the kind is
  not a recognized label, the error raised is the one of the amount check, not the one
  of the kind check.
\<close>

theorem monto_antes_que_tipo:
  assumes "fle mnt (Fin 0)" and "lower tp \<notin> set [''ingreso'', ''egreso'']"
  shows "fst (agregar_transaccion self fch dsc mnt tp) = Inl InvalidAmount \<and>
         fst (agregar_transaccion self fch dsc mnt tp) \<noteq> Inl InvalidKind"
  using assms(1) by (simp add: agregar_transaccion_def)

text \<open>Witness for C4: the amount \<^verbatim>\<open>-10\<close> with the kind \<^verbatim>\<open>donation\<close>.\<close>

theorem monto_antes_que_tipo_witness:
  "fle (diadico (- 10) 0) (Fin 0) \<and> lower ''donation'' \<notin> set [''ingreso'', ''egreso''] \<and>
   fst (agregar_transaccion init ''d'' ''desc'' (diadico (- 10) 0) ''donation'') = Inl InvalidAmount"
proof -
  have h: "fle (diadico (- 10) 0) (Fin 0)" using diadico_exact [of "- 10" 0] by simp
  have k: "lower ''donation'' \<notin> set [''ingreso'', ''egreso'']" by code_simp
  from h k monto_antes_que_tipo [OF h k] show ?thesis by simp
qed

text \<open>
  C5. For every ledger, every amount \<^verbatim>\<open>> 0\<close> and every kind equal up to case to a
  recognized label, \<^verbatim>\<open>agregar_transaccion\<close> returns, and the ledger after the call is the
  ledger before it with one transaction appended at the end: the one with the given
  date, description and amount and with the lowered kind, which is one of the two labels.
\<close>

theorem agregar_valida_anexa:
  assumes "flt (Fin 0) mnt" and "ci_equal tp ''ingreso'' \<or> ci_equal tp ''egreso''"
  shows "agregar_transaccion self fch dsc mnt tp =
           (Inr (), self\<lparr>transacciones := transacciones self @
              [\<lparr>fecha = fch, descripcion = dsc, monto = mnt, tipo = lower tp\<rparr>]\<rparr>) \<and>
         (lower tp = ''ingreso'' \<or> lower tp = ''egreso'')"
proof -
  from assms(1) have "\<not> fle mnt (Fin 0)" by (rule flt_imp_not_fle)
  moreover from assms(2) have "lower tp \<in> set [''ingreso'', ''egreso'']"
    by (simp only: tipo_reconocido_iff)
  ultimately show ?thesis by (auto simp: agregar_transaccion_def Let_def)
qed

text \<open>Witness for C5: the kind \<^verbatim>\<open>INGRESO\<close> is stored as \<^verbatim>\<open>ingreso\<close>.\<close>

theorem agregar_valida_anexa_witness:
  "flt (Fin 0) (diadico 10 0) \<and> (ci_equal ''INGRESO'' ''ingreso'' \<or> ci_equal ''INGRESO'' ''egreso'') \<and>
   agregar_transaccion init ''d'' ''desc'' (diadico 10 0) ''INGRESO'' =
     (Inr (), \<lparr>transacciones =
        [\<lparr>fecha = ''d'', descripcion = ''desc'', monto = diadico 10 0, tipo = ''ingreso''\<rparr>]\<rparr>)"
proof -
  have h: "flt (Fin 0) (diadico 10 0)" using diadico_exact [of 10 0] by simp
  have k: "ci_equal ''INGRESO'' ''ingreso'' \<or> ci_equal ''INGRESO'' ''egreso''" by code_simp
  have l: "lower ''INGRESO'' = ''ingreso''" by code_simp
  from h k agregar_valida_anexa [OF h k, of init "''d''" "''desc''"] show ?thesis by (simp add: l init_def)
qed

text \<open>
  C6. The stored amounts are claimed to be \<^verbatim>\<open>> 0\<close>. The check \<^verbatim>\<open>monto <= 0\<close> is false for
  NaN, so a call with the amount NaN on the empty ledger returns and stores it, and NaN
  is not \<^verbatim>\<open>> 0\<close>. (The rest of the invariant holds: the kinds stored are the two labels
  and the stored amounts are never \<^verbatim>\<open><= 0\<close>, by \<open>alcanzable_inv\<close>; a call only appends,
  by \<open>agregar_solo_anexa\<close> and \<open>snd_obtener_resumen\<close>.)
\<close>

theorem nan_es_aceptado:
  "agregar_transaccion init ''2025-01-28'' ''Venta de servicios'' NaN ''ingreso'' =
     (Inr (), \<lparr>transacciones =
        [\<lparr>fecha = ''2025-01-28'', descripcion = ''Venta de servicios'', monto = NaN, tipo = ''ingreso''\<rparr>]\<rparr>) \<and>
   \<not> flt (Fin 0) NaN"
proof -
  have l: "lower ''ingreso'' = ''ingreso''" by code_simp
  show ?thesis by (simp add: agregar_transaccion_def l init_def)
qed



text \<open>
  C8, as amended. Take valid calls of \<^verbatim>\<open>agregar_transaccion\<close> whose amounts are summed
  without rounding (\<open>sin_redondeo\<close>). Run from the empty ledger in any two orders, they
  give the same result of \<^verbatim>\<open>obtener_resumen\<close>.
\<close>

theorem resumen_no_depende_del_orden:
  assumes val: "list_all llamada_valida cs"
    and perm: "mset cs' = mset cs"
    and sr: "sin_redondeo s (map monto_de cs)"
  shows "fst (obtener_resumen (registrar init cs')) = fst (obtener_resumen (registrar init cs))"
proof -
  from val have v: "\<forall>c \<in> set cs. llamada_valida c" by (simp add: list_all_iff)
  then have v': "\<forall>c \<in> set cs'. llamada_valida c" by (simp only: mset_eq_setD [OF perm])
  have t: "transacciones (registrar init cs) = map transaccion_de cs"
    using registrar_validas [OF v, of init] by (simp add: init_def)
  have t': "transacciones (registrar init cs') = map transaccion_de cs'"
    using registrar_validas [OF v', of init] by (simp add: init_def)
  have m: "mset (map transaccion_de cs') = mset (map transaccion_de cs)" using perm by simp
  have "mset (map monto_de cs) = mset (map monto_de cs')" using perm by simp
  then have sr': "sin_redondeo s (map monto_de cs')" using sr by (rule sin_redondeo_mset)
  have mm: "map monto (map transaccion_de xs) = map monto_de xs" for xs
    by (simp add: monto_transaccion_de)
  have a: "sin_redondeo s (map monto (transacciones (registrar init cs)))"
    using sr by (simp only: t mm)
  have a': "sin_redondeo s (map monto (transacciones (registrar init cs')))"
    using sr' by (simp only: t' mm)
  show ?thesis
    unfolding resumen_exacto [OF a] resumen_exacto [OF a'] t t'
    by (simp only: sum_list_mset_cong [OF m])
qed

text \<open>Witness for C8: the two calls of the module's example, in both orders.\<close>

theorem resumen_no_depende_del_orden_witness:
  "list_all llamada_valida
     [(''2025-01-28'', ''Venta de servicios'', diadico 500 0, ''ingreso''),
      (''2025-01-29'', ''Pago de luz'', diadico 241 (- 1), ''egreso'')] \<and>
   mset [(''2025-01-29'', ''Pago de luz'', diadico 241 (- 1), ''egreso''),
         (''2025-01-28'', ''Venta de servicios'', diadico 500 0, ''ingreso'')] =
   mset [(''2025-01-28'', ''Venta de servicios'', diadico 500 0, ''ingreso''),
         (''2025-01-29'', ''Pago de luz'', diadico 241 (- 1), ''egreso'')] \<and>
   sin_redondeo 1073 (map monto_de
     [(''2025-01-28'', ''Venta de servicios'', diadico 500 0, ''ingreso''),
      (''2025-01-29'', ''Pago de luz'', diadico 241 (- 1), ''egreso'')]) \<and>
   fst (obtener_resumen (registrar init
     [(''2025-01-29'', ''Pago de luz'', diadico 241 (- 1), ''egreso''),
      (''2025-01-28'', ''Venta de servicios'', diadico 500 0, ''ingreso'')])) =
   fst (obtener_resumen (registrar init
     [(''2025-01-28'', ''Venta de servicios'', diadico 500 0, ''ingreso''),
      (''2025-01-29'', ''Pago de luz'', diadico 241 (- 1), ''egreso'')]))"
proof -
  have a: "diadico 500 0 = Fin (500 * 2 ^ 1074)" using diadico_exact [of 500 0] by simp
  have b: "diadico 241 (- 1) = Fin (241 * 2 ^ 1073)" using diadico_exact [of 241 "- 1"] by simp
  have h1: "list_all llamada_valida
     [(''2025-01-28'', ''Venta de servicios'', diadico 500 0, ''ingreso''),
      (''2025-01-29'', ''Pago de luz'', diadico 241 (- 1), ''egreso'')]"
    by (simp add: a b lower_etiquetas)
  have h2: "mset [(''2025-01-29'', ''Pago de luz'', diadico 241 (- 1), ''egreso''),
         (''2025-01-28'', ''Venta de servicios'', diadico 500 0, ''ingreso'')] =
   mset [(''2025-01-28'', ''Venta de servicios'', diadico 500 0, ''ingreso''),
         (''2025-01-29'', ''Pago de luz'', diadico 241 (- 1), ''egreso'')]"
    by (simp add: add_mset_commute)
  have h3: "sin_redondeo 1073 (map monto_de
     [(''2025-01-28'', ''Venta de servicios'', diadico 500 0, ''ingreso''),
      (''2025-01-29'', ''Pago de luz'', diadico 241 (- 1), ''egreso'')])"
    by (simp add: sin_redondeo_def a b)
  from h1 h2 h3 resumen_no_depende_del_orden [OF h1 h2 h3] show ?thesis by (intro conjI)
qed

text \<open>
  Counterexample to C8 as stated: three valid income calls with the amounts \<^verbatim>\<open>2.0 ** 53\<close>,
  \<^verbatim>\<open>1.0\<close> and \<^verbatim>\<open>1.0\<close>. In this order each addition of \<^verbatim>\<open>1.0\<close> is rounded away and the
  total is \<^verbatim>\<open>9007199254740992.0\<close>; with the two small amounts first it is
  \<^verbatim>\<open>9007199254740994.0\<close>.
\<close>

theorem orden_cambia_el_resumen_counterexample:
  "list_all llamada_valida
     [(''2025-01-01'', ''Venta A'', diadico 1 53, ''ingreso''),
      (''2025-01-02'', ''Venta B'', diadico 1 0, ''ingreso''),
      (''2025-01-03'', ''Venta C'', diadico 1 0, ''ingreso'')] \<and>
   mset [(''2025-01-02'', ''Venta B'', diadico 1 0, ''ingreso''),
         (''2025-01-03'', ''Venta C'', diadico 1 0, ''ingreso''),
         (''2025-01-01'', ''Venta A'', diadico 1 53, ''ingreso'')] =
   mset [(''2025-01-01'', ''Venta A'', diadico 1 53, ''ingreso''),
         (''2025-01-02'', ''Venta B'', diadico 1 0, ''ingreso''),
         (''2025-01-03'', ''Venta C'', diadico 1 0, ''ingreso'')] \<and>
   fst (obtener_resumen (registrar init
     [(''2025-01-01'', ''Venta A'', diadico 1 53, ''ingreso''),
      (''2025-01-02'', ''Venta B'', diadico 1 0, ''ingreso''),
      (''2025-01-03'', ''Venta C'', diadico 1 0, ''ingreso'')])) =
     Inr \<lparr>total_ingresos = diadico 1 53, total_egresos = Fin 0, balance_neto = diadico 1 53\<rparr> \<and>
   fst (obtener_resumen (registrar init
     [(''2025-01-02'', ''Venta B'', diadico 1 0, ''ingreso''),
      (''2025-01-03'', ''Venta C'', diadico 1 0, ''ingreso''),
      (''2025-01-01'', ''Venta A'', diadico 1 53, ''ingreso'')])) =
     Inr \<lparr>total_ingresos = diadico 4503599627370497 1, total_egresos = Fin 0,
          balance_neto = diadico 4503599627370497 1\<rparr> \<and>
   diadico 1 53 \<noteq> diadico 4503599627370497 1"
proof -
  have a: "diadico 1 53 = Fin (2 ^ 1127)" using diadico_exact [of 1 53] by simp
  have b: "diadico 1 0 = Fin (2 ^ 1074)" using diadico_exact [of 1 0] by simp
  have c: "diadico 2 0 = Fin (2 ^ 1075)" using diadico_exact [of 2 0] by simp
  have d: "diadico 4503599627370497 1 = Fin (4503599627370497 * 2 ^ 1075)"
    using diadico_exact [of 4503599627370497 1] by simp
  have v: "list_all llamada_valida
     [(''2025-01-01'', ''Venta A'', diadico 1 53, ''ingreso''),
      (''2025-01-02'', ''Venta B'', diadico 1 0, ''ingreso''),
      (''2025-01-03'', ''Venta C'', diadico 1 0, ''ingreso'')]"
    by (simp add: a b lower_etiquetas)
  have v': "list_all llamada_valida
     [(''2025-01-02'', ''Venta B'', diadico 1 0, ''ingreso''),
      (''2025-01-03'', ''Venta C'', diadico 1 0, ''ingreso''),
      (''2025-01-01'', ''Venta A'', diadico 1 53, ''ingreso'')]"
    by (simp add: a b lower_etiquetas)
  have m: "mset [(''2025-01-02'', ''Venta B'', diadico 1 0, ''ingreso''),
         (''2025-01-03'', ''Venta C'', diadico 1 0, ''ingreso''),
         (''2025-01-01'', ''Venta A'', diadico 1 53, ''ingreso'')] =
   mset [(''2025-01-01'', ''Venta A'', diadico 1 53, ''ingreso''),
         (''2025-01-02'', ''Venta B'', diadico 1 0, ''ingreso''),
         (''2025-01-03'', ''Venta C'', diadico 1 0, ''ingreso'')]"
    by (simp add: add_mset_commute)
  have f1: "fadd (diadico 1 53) (diadico 1 0) = diadico 1 53"
    using round_double_eqI [of 1075 "2 ^ 1127 + 2 ^ 1074"] by (simp add: a b rne_def Let_def)
  have g1: "fadd (diadico 1 0) (diadico 1 0) = diadico 2 0"
    unfolding b by (simp add: diadico_def)
  have g2: "fadd (diadico 2 0) (diadico 1 53) = diadico 4503599627370497 1"
    unfolding a c by (simp add: diadico_def)
  have r: "fst (obtener_resumen (registrar init
     [(''2025-01-01'', ''Venta A'', diadico 1 53, ''ingreso''),
      (''2025-01-02'', ''Venta B'', diadico 1 0, ''ingreso''),
      (''2025-01-03'', ''Venta C'', diadico 1 0, ''ingreso'')])) =
     Inr \<lparr>total_ingresos = diadico 1 53, total_egresos = Fin 0, balance_neto = diadico 1 53\<rparr>"
    unfolding registrar_validas [OF v [unfolded list_all_iff]]
    by (simp add: obtener_resumen_def init_def lower_etiquetas fadd_zero_diadico f1 fsub_zero_diadico)
  have r': "fst (obtener_resumen (registrar init
     [(''2025-01-02'', ''Venta B'', diadico 1 0, ''ingreso''),
      (''2025-01-03'', ''Venta C'', diadico 1 0, ''ingreso''),
      (''2025-01-01'', ''Venta A'', diadico 1 53, ''ingreso'')])) =
     Inr \<lparr>total_ingresos = diadico 4503599627370497 1, total_egresos = Fin 0,
          balance_neto = diadico 4503599627370497 1\<rparr>"
    unfolding registrar_validas [OF v' [unfolded list_all_iff]]
    by (simp add: obtener_resumen_def init_def lower_etiquetas fadd_zero_diadico g1 g2 fsub_zero_diadico)
  have ne: "diadico 1 53 \<noteq> diadico 4503599627370497 1" unfolding a d by simp
  from v m r r' ne show ?thesis by (intro conjI)
qed

text \<open>
  C9, as amended. For every ledger state, reachable or not, \<^verbatim>\<open>total_egresos\<close> is the sum of
  the amounts of all the transactions whose kind is not \<^verbatim>\<open>ingreso\<close>; and when the stored
  amounts are summed without rounding, \<^verbatim>\<open>total_ingresos + total_egresos\<close> is the sum of
  the amounts of all the stored transactions.
\<close>

theorem ingresos_mas_egresos_es_total:
  "fst (obtener_resumen self) =
     Inr \<lparr>total_ingresos = suma (montos es_ingreso self),
          total_egresos = suma (montos no_es_ingreso self),
          balance_neto = fsub (suma (montos es_ingreso self)) (suma (montos no_es_ingreso self))\<rparr> \<and>
   (sin_redondeo s (map monto (transacciones self)) \<longrightarrow>
      fadd (suma (montos es_ingreso self)) (suma (montos no_es_ingreso self)) =
      suma (map monto (transacciones self)))"
proof (intro conjI impI)
  show "fst (obtener_resumen self) =
     Inr \<lparr>total_ingresos = suma (montos es_ingreso self),
          total_egresos = suma (montos no_es_ingreso self),
          balance_neto = fsub (suma (montos es_ingreso self)) (suma (montos no_es_ingreso self))\<rparr>"
    by (rule obtener_resumen_suma)
next
  let ?ts = "transacciones self"
  let ?u = "\<lambda>t. unidades (monto t)"
  assume sr: "sin_redondeo s (map monto ?ts)"
  have n: "no_es_ingreso = (\<lambda>t. \<not> es_ingreso t)"
    by (auto simp: no_es_ingreso_def es_ingreso_def)
  have "suma (map monto (filter (\<lambda>t. True) ?ts)) = Fin (sum_list (map ?u (filter (\<lambda>t. True) ?ts)))"
    using sr by (rule suma_filter_exacta)
  then have all: "suma (map monto ?ts) = Fin (sum_list (map ?u ?ts))" by simp
  have "is_double (suma (map monto ?ts))" by (rule is_double_suma)
  then have rd: "round_double (sum_list (map ?u ?ts)) = Fin (sum_list (map ?u ?ts))"
    unfolding all by simp
  have "fadd (suma (montos es_ingreso self)) (suma (montos no_es_ingreso self)) =
      round_double (sum_list (map ?u (filter es_ingreso ?ts)) +
                    sum_list (map ?u (filter (\<lambda>t. \<not> es_ingreso t) ?ts)))"
    unfolding montos_def suma_filter_exacta [OF sr] n by simp
  also have "\<dots> = round_double (sum_list (map ?u ?ts))"
    by (simp only: sum_list_filter_split)
  also note rd
  also note all [symmetric]
  finally show "fadd (suma (montos es_ingreso self)) (suma (montos no_es_ingreso self)) =
      suma (map monto ?ts)" .
qed

text \<open>
  Witness for C9: a ledger with an income, an expense and a transaction of the kind
  \<^verbatim>\<open>otro\<close>, all multiples of \<^verbatim>\<open>0.5\<close>.
\<close>

theorem ingresos_mas_egresos_es_total_witness:
  "sin_redondeo 1073 (map monto (transacciones
     \<lparr>transacciones =
        [\<lparr>fecha = ''2025-01-28'', descripcion = ''Venta de servicios'', monto = diadico 500 0, tipo = ''ingreso''\<rparr>,
         \<lparr>fecha = ''2025-01-29'', descripcion = ''Pago de luz'', monto = diadico 241 (- 1), tipo = ''egreso''\<rparr>,
         \<lparr>fecha = ''2025-01-30'', descripcion = ''Ajuste'', monto = diadico 5 0, tipo = ''otro''\<rparr>]\<rparr>)) \<and>
   fadd
     (suma (montos es_ingreso \<lparr>transacciones =
        [\<lparr>fecha = ''2025-01-28'', descripcion = ''Venta de servicios'', monto = diadico 500 0, tipo = ''ingreso''\<rparr>,
         \<lparr>fecha = ''2025-01-29'', descripcion = ''Pago de luz'', monto = diadico 241 (- 1), tipo = ''egreso''\<rparr>,
         \<lparr>fecha = ''2025-01-30'', descripcion = ''Ajuste'', monto = diadico 5 0, tipo = ''otro''\<rparr>]\<rparr>))
     (suma (montos no_es_ingreso \<lparr>transacciones =
        [\<lparr>fecha = ''2025-01-28'', descripcion = ''Venta de servicios'', monto = diadico 500 0, tipo = ''ingreso''\<rparr>,
         \<lparr>fecha = ''2025-01-29'', descripcion = ''Pago de luz'', monto = diadico 241 (- 1), tipo = ''egreso''\<rparr>,
         \<lparr>fecha = ''2025-01-30'', descripcion = ''Ajuste'', monto = diadico 5 0, tipo = ''otro''\<rparr>]\<rparr>)) =
   suma (map monto (transacciones \<lparr>transacciones =
        [\<lparr>fecha = ''2025-01-28'', descripcion = ''Venta de servicios'', monto = diadico 500 0, tipo = ''ingreso''\<rparr>,
         \<lparr>fecha = ''2025-01-29'', descripcion = ''Pago de luz'', monto = diadico 241 (- 1), tipo = ''egreso''\<rparr>,
         \<lparr>fecha = ''2025-01-30'', descripcion = ''Ajuste'', monto = diadico 5 0, tipo = ''otro''\<rparr>]\<rparr>))"
proof -
  let ?l = "\<lparr>transacciones =
        [\<lparr>fecha = ''2025-01-28'', descripcion = ''Venta de servicios'', monto = diadico 500 0, tipo = ''ingreso''\<rparr>,
         \<lparr>fecha = ''2025-01-29'', descripcion = ''Pago de luz'', monto = diadico 241 (- 1), tipo = ''egreso''\<rparr>,
         \<lparr>fecha = ''2025-01-30'', descripcion = ''Ajuste'', monto = diadico 5 0, tipo = ''otro''\<rparr>]\<rparr>"
  have a: "diadico 500 0 = Fin (500 * 2 ^ 1074)" using diadico_exact [of 500 0] by simp
  have b: "diadico 241 (- 1) = Fin (241 * 2 ^ 1073)" using diadico_exact [of 241 "- 1"] by simp
  have c: "diadico 5 0 = Fin (5 * 2 ^ 1074)" using diadico_exact [of 5 0] by simp
  have h: "sin_redondeo 1073 (map monto (transacciones ?l))"
    by (simp add: sin_redondeo_def a b c)
  from h ingresos_mas_egresos_es_total [of ?l 1073] show ?thesis by (intro conjI) blast+
qed

text \<open>
  Counterexample to C9 as stated: the income \<^verbatim>\<open>1.0\<close>, the expense \<^verbatim>\<open>2.0 ** 53\<close>, the income
  \<^verbatim>\<open>1.0\<close>. The two totals add up to \<^verbatim>\<open>9007199254740994.0\<close>, the sum of the three amounts
  in stored order is \<^verbatim>\<open>9007199254740992.0\<close>.
\<close>

theorem ingresos_mas_egresos_redondeo_counterexample:
  "fst (obtener_resumen \<lparr>transacciones =
      [\<lparr>fecha = ''2025-01-01'', descripcion = ''Venta A'', monto = diadico 1 0, tipo = ''ingreso''\<rparr>,
       \<lparr>fecha = ''2025-01-02'', descripcion = ''Compra'', monto = diadico 1 53, tipo = ''egreso''\<rparr>,
       \<lparr>fecha = ''2025-01-03'', descripcion = ''Venta B'', monto = diadico 1 0, tipo = ''ingreso''\<rparr>]\<rparr>) =
     Inr \<lparr>total_ingresos = diadico 2 0, total_egresos = diadico 1 53,
          balance_neto = diadico (- 4503599627370495) 1\<rparr> \<and>
   fadd (diadico 2 0) (diadico 1 53) = diadico 4503599627370497 1 \<and>
   suma (map monto (transacciones \<lparr>transacciones =
      [\<lparr>fecha = ''2025-01-01'', descripcion = ''Venta A'', monto = diadico 1 0, tipo = ''ingreso''\<rparr>,
       \<lparr>fecha = ''2025-01-02'', descripcion = ''Compra'', monto = diadico 1 53, tipo = ''egreso''\<rparr>,
       \<lparr>fecha = ''2025-01-03'', descripcion = ''Venta B'', monto = diadico 1 0, tipo = ''ingreso''\<rparr>]\<rparr>)) =
     diadico 1 53 \<and>
   diadico 4503599627370497 1 \<noteq> diadico 1 53"
proof -
  have a: "diadico 1 53 = Fin (2 ^ 1127)" using diadico_exact [of 1 53] by simp
  have b: "diadico 1 0 = Fin (2 ^ 1074)" using diadico_exact [of 1 0] by simp
  have c: "diadico 2 0 = Fin (2 ^ 1075)" using diadico_exact [of 2 0] by simp
  have d: "diadico 4503599627370497 1 = Fin (4503599627370497 * 2 ^ 1075)"
    using diadico_exact [of 4503599627370497 1] by simp
  have f1: "fadd (diadico 1 53) (diadico 1 0) = diadico 1 53"
    using round_double_eqI [of 1075 "2 ^ 1127 + 2 ^ 1074"] by (simp add: a b rne_def Let_def)
  have f2: "fadd (diadico 1 0) (diadico 1 53) = diadico 1 53"
    using round_double_eqI [of 1075 "2 ^ 1074 + 2 ^ 1127"] by (simp add: a b rne_def Let_def)
  have g1: "fadd (diadico 1 0) (diadico 1 0) = diadico 2 0"
    unfolding b by (simp add: diadico_def)
  have g2: "fadd (diadico 2 0) (diadico 1 53) = diadico 4503599627370497 1"
    unfolding a c by (simp add: diadico_def)
  have g3: "fsub (diadico 2 0) (diadico 1 53) = diadico (- 4503599627370495) 1"
    unfolding a c by (simp add: diadico_def fsub_def)
  have r: "fst (obtener_resumen \<lparr>transacciones =
      [\<lparr>fecha = ''2025-01-01'', descripcion = ''Venta A'', monto = diadico 1 0, tipo = ''ingreso''\<rparr>,
       \<lparr>fecha = ''2025-01-02'', descripcion = ''Compra'', monto = diadico 1 53, tipo = ''egreso''\<rparr>,
       \<lparr>fecha = ''2025-01-03'', descripcion = ''Venta B'', monto = diadico 1 0, tipo = ''ingreso''\<rparr>]\<rparr>) =
     Inr \<lparr>total_ingresos = diadico 2 0, total_egresos = diadico 1 53,
          balance_neto = diadico (- 4503599627370495) 1\<rparr>"
    by (simp add: obtener_resumen_def fadd_zero_diadico g1 g3)
  have t: "suma (map monto (transacciones \<lparr>transacciones =
      [\<lparr>fecha = ''2025-01-01'', descripcion = ''Venta A'', monto = diadico 1 0, tipo = ''ingreso''\<rparr>,
       \<lparr>fecha = ''2025-01-02'', descripcion = ''Compra'', monto = diadico 1 53, tipo = ''egreso''\<rparr>,
       \<lparr>fecha = ''2025-01-03'', descripcion = ''Venta B'', monto = diadico 1 0, tipo = ''ingreso''\<rparr>]\<rparr>)) =
     diadico 1 53"
    by (simp add: suma_def fadd_zero_diadico f1 f2)
  have ne: "diadico 4503599627370497 1 \<noteq> diadico 1 53" unfolding a d by simp
  from r g2 t ne show ?thesis by (intro conjI)
qed

text \<open>
  C10, as amended. For every ledger that calls of \<^verbatim>\<open>agregar_transaccion\<close> build from the
  empty one, none of them passing the amount NaN, \<^verbatim>\<open>obtener_resumen\<close> returns totals that
  are \<^verbatim>\<open>>= 0\<close>, and a balance that is \<^verbatim>\<open><=\<close> the total income unless both totals are
  infinite.
\<close>

theorem totales_no_negativos:
  assumes "NaN \<notin> set (map monto_de cs)"
  shows "\<exists>r. fst (obtener_resumen (registrar init cs)) = Inr r \<and>
           fle (Fin 0) (total_ingresos r) \<and> fle (Fin 0) (total_egresos r) \<and>
           (\<not> (total_ingresos r = PInf \<and> total_egresos r = PInf) \<longrightarrow>
              fle (balance_neto r) (total_ingresos r))"
proof -
  let ?l = "registrar init cs"
  have "alcanzable ?l" by (rule alcanzable_registrar) (rule alc_init)
  then have inv: "\<forall>t \<in> set (transacciones ?l). \<not> fle (monto t) (Fin 0)"
    using alcanzable_inv by blast
  have sub: "set (map monto (transacciones ?l)) \<subseteq> set (map monto_de cs)"
    using registrar_montos [of init cs] by (simp add: init_def)
  have "\<forall>t \<in> set (transacciones ?l). monto t \<noteq> NaN"
  proof
    fix t
    assume "t \<in> set (transacciones ?l)"
    then have "monto t \<in> set (map monto (transacciones ?l))" by simp
    with sub have "monto t \<in> set (map monto_de cs)" by (rule subsetD)
    with assms show "monto t \<noteq> NaN" by metis
  qed
  with inv have pos: "\<forall>t \<in> set (transacciones ?l). flt (Fin 0) (monto t)"
    by (auto intro: not_fle_flt)
  let ?ti = "suma (montos es_ingreso ?l)" and ?te = "suma (montos no_es_ingreso ?l)"
  have r: "fst (obtener_resumen ?l) =
      Inr \<lparr>total_ingresos = ?ti, total_egresos = ?te, balance_neto = fsub ?ti ?te\<rparr>"
    by (rule obtener_resumen_suma)
  have ti: "fle (Fin 0) ?ti" unfolding montos_def by (rule suma_nonneg) (use pos in auto)
  have te: "fle (Fin 0) ?te" unfolding montos_def by (rule suma_nonneg) (use pos in auto)
  have "\<not> (?ti = PInf \<and> ?te = PInf) \<longrightarrow> fle (fsub ?ti ?te) ?ti"
    using is_double_suma ti te by (auto intro: fsub_le)
  with r ti te show ?thesis by simp
qed

text \<open>Witness for C10: the two calls of the module's example.\<close>

theorem totales_no_negativos_witness:
  "NaN \<notin> set (map monto_de
     [(''2025-01-28'', ''Venta de servicios'', diadico 500 0, ''ingreso''),
      (''2025-01-29'', ''Pago de luz'', diadico 241 (- 1), ''egreso'')]) \<and>
   (\<exists>r. fst (obtener_resumen (registrar init
       [(''2025-01-28'', ''Venta de servicios'', diadico 500 0, ''ingreso''),
        (''2025-01-29'', ''Pago de luz'', diadico 241 (- 1), ''egreso'')])) = Inr r \<and>
      fle (Fin 0) (total_ingresos r) \<and> fle (Fin 0) (total_egresos r) \<and>
      (\<not> (total_ingresos r = PInf \<and> total_egresos r = PInf) \<longrightarrow>
         fle (balance_neto r) (total_ingresos r)))"
proof -
  have a: "diadico 500 0 = Fin (500 * 2 ^ 1074)" using diadico_exact [of 500 0] by simp
  have b: "diadico 241 (- 1) = Fin (241 * 2 ^ 1073)" using diadico_exact [of 241 "- 1"] by simp
  have h: "NaN \<notin> set (map monto_de
     [(''2025-01-28'', ''Venta de servicios'', diadico 500 0, ''ingreso''),
      (''2025-01-29'', ''Pago de luz'', diadico 241 (- 1), ''egreso'')])"
    by (simp add: a b)
  from h totales_no_negativos [OF h] show ?thesis by (intro conjI)
qed

text \<open>
  Counterexample to C10 as stated: two incomes and two expenses of \<^verbatim>\<open>2.0 ** 1023\<close> each.
  Both totals overflow to \<^verbatim>\<open>inf\<close>, the balance \<^verbatim>\<open>inf - inf\<close> is NaN, and
  \<^verbatim>\<open>nan <= inf\<close> is false.
\<close>

theorem balance_desbordado_counterexample:
  "list_all llamada_valida
     [(''2025-01-01'', ''Venta A'', diadico 1 1023, ''ingreso''),
      (''2025-01-02'', ''Venta B'', diadico 1 1023, ''ingreso''),
      (''2025-01-03'', ''Compra A'', diadico 1 1023, ''egreso''),
      (''2025-01-04'', ''Compra B'', diadico 1 1023, ''egreso'')] \<and>
   fst (obtener_resumen (registrar init
     [(''2025-01-01'', ''Venta A'', diadico 1 1023, ''ingreso''),
      (''2025-01-02'', ''Venta B'', diadico 1 1023, ''ingreso''),
      (''2025-01-03'', ''Compra A'', diadico 1 1023, ''egreso''),
      (''2025-01-04'', ''Compra B'', diadico 1 1023, ''egreso'')])) =
     Inr \<lparr>total_ingresos = PInf, total_egresos = PInf, balance_neto = NaN\<rparr> \<and>
   \<not> fle NaN PInf"
proof -
  have a: "diadico 1 1023 = Fin (2 ^ 2097)" using diadico_exact [of 1 1023] by simp
  have v: "list_all llamada_valida
     [(''2025-01-01'', ''Venta A'', diadico 1 1023, ''ingreso''),
      (''2025-01-02'', ''Venta B'', diadico 1 1023, ''ingreso''),
      (''2025-01-03'', ''Compra A'', diadico 1 1023, ''egreso''),
      (''2025-01-04'', ''Compra B'', diadico 1 1023, ''egreso'')]"
    by (simp add: a lower_etiquetas)
  have f: "fadd (diadico 1 1023) (diadico 1 1023) = PInf"
    using round_double_overflow [of "2 ^ 2097 + 2 ^ 2097"] by (simp add: a)
  have r: "fst (obtener_resumen (registrar init
     [(''2025-01-01'', ''Venta A'', diadico 1 1023, ''ingreso''),
      (''2025-01-02'', ''Venta B'', diadico 1 1023, ''ingreso''),
      (''2025-01-03'', ''Compra A'', diadico 1 1023, ''egreso''),
      (''2025-01-04'', ''Compra B'', diadico 1 1023, ''egreso'')])) =
     Inr \<lparr>total_ingresos = PInf, total_egresos = PInf, balance_neto = NaN\<rparr>"
    unfolding registrar_validas [OF v [unfolded list_all_iff]]
    by (simp add: obtener_resumen_def init_def lower_etiquetas fadd_zero_diadico f fsub_def)
  from v r show ?thesis by simp
qed

end
